theory Spec2Isabelle
  imports Complex_Main "HOL-Library.Sublist" "HOL-Library.Log_Nat"
begin

section \<open>Utilities of \<^verbatim>\<open>solarnet/utils/ml.py\<close>\<close>

text \<open>
  The two functions modelled here are \<^verbatim>\<open>compute_class_weights\<close> and
  \<^verbatim>\<open>find_best_checkpoint\<close>.

  Numbers. \<^verbatim>\<open>compute_class_weights\<close> is embedded twice. In the first embedding Python's
  \<^verbatim>\<open>int\<close> and \<^verbatim>\<open>float\<close> values are real numbers and every operation is the exact one;
  it carries the properties that do not depend on how a result is rounded: what the call
  does to its argument, when it raises, and the weight of the majority class. In the
  second embedding, \<open>compute_class_weights_f64\<close>, every operation on floats returns the
  nearest double as in Python; it carries the properties of the computed weights. The
  two embeddings raise on the same inputs (\<open>f64_raises_as_exact\<close>). Overflow, NaN and the
  infinities are outside both. The closed evaluations of the first embedding are made at
  inputs where exact and double arithmetic give the same result: the counts are small
  integers, the smoothing factors are \<open>0\<close>, \<open>0.5\<close> or \<open>1\<close>, and a quotient is either a
  dyadic fraction or far from a rounding tie.

  Exceptions. Each \<^verbatim>\<open>raise\<close> and each failing \<^verbatim>\<open>assert\<close> of the source is a
  value of the type \<open>error\<close>; the three \<^verbatim>\<open>assert\<close> statements raise
  \<^verbatim>\<open>AssertionError\<close> with three different messages and have a constructor each.
\<close>

datatype error =
    SmoothingOutOfRange    \<comment> \<open>\<^verbatim>\<open>AssertionError("Smoothing factor out of range")\<close>\<close>
  | NoModelsFound          \<comment> \<open>\<^verbatim>\<open>AssertionError("No models found for pattern ...")\<close>\<close>
  | UnknownModelType string  \<comment> \<open>\<^verbatim>\<open>AssertionError("Unknown model type '<mtype>'")\<close>\<close>
  | ValueError             \<comment> \<open>\<^verbatim>\<open>max\<close> of an empty sequence, tuple unpacking, \<^verbatim>\<open>float\<close>, \<^verbatim>\<open>split\<close>\<close>
  | ZeroDivisionError      \<comment> \<open>\<^verbatim>\<open>/\<close> with a zero divisor\<close>

subsection \<open>Python and numpy built-ins\<close>

text \<open>\<^verbatim>\<open>max(xs)\<close> raises \<^verbatim>\<open>ValueError\<close> on an empty sequence.\<close>

definition py_max :: "real list \<Rightarrow> error + real" where
  "py_max xs = (if xs = [] then Inl ValueError else Inr (Max (set xs)))"

text \<open>\<^verbatim>\<open>a / b\<close> raises \<^verbatim>\<open>ZeroDivisionError\<close> when \<^verbatim>\<open>b\<close> is zero (int or float).\<close>

definition py_div :: "real \<Rightarrow> real \<Rightarrow> error + real" where
  "py_div a b = (if b = 0 then Inl ZeroDivisionError else Inr (a / b))"

text \<open>
  \<^verbatim>\<open>round(x, ndigits=n)\<close> returns the multiple of \<open>10 ^ -n\<close> closest to \<^verbatim>\<open>x\<close>; when
  two multiples are equally close, the even one (Python 3 rounds half to even).
\<close>

definition round_half_even :: "real \<Rightarrow> int" where
  "round_half_even y =
     (let f = \<lfloor>y\<rfloor>; d = y - of_int f
      in if d < 1 / 2 then f
         else if 1 / 2 < d then f + 1
         else if even f then f else f + 1)"

definition py_round :: "real \<Rightarrow> nat \<Rightarrow> real" where
  "py_round x ndigits = of_int (round_half_even (x * 10 ^ ndigits)) / 10 ^ ndigits"

text \<open>
  \<^verbatim>\<open>np.clip(a, a_min, a_max)\<close> is \<^verbatim>\<open>minimum(a_max, maximum(a, a_min))\<close>.
\<close>

definition np_clip :: "real \<Rightarrow> real \<Rightarrow> real \<Rightarrow> real" where
  "np_clip a a_min a_max = min a_max (max a a_min)"

subsection \<open>\<^verbatim>\<open>compute_class_weights\<close>\<close>

text \<open>
  A \<^verbatim>\<open>dict\<close> is an association list in insertion order; its keys are distinct.
  The argument \<^verbatim>\<open>data\<close> is the caller's object and the function assigns to its
  entries, so the model returns the dictionary as the call leaves it, next to the result
  or the exception:
  \<^verbatim>\<open>
  def compute_class_weights(data, smoothing=0.15, clip=10.0):
      assert smoothing >= 0 and smoothing <= 1, "Smoothing factor out of range"
      if smoothing > 0:
          smoothed_maxval = max(list(data.values())) * smoothing
          for k in data.keys():
              data[k] += smoothed_maxval
      majority = max(data.values())
      return {k: np.clip(round(float(majority / v), ndigits=2), 0, clip)
              for k, v in data.items()}
  \<close>
\<close>

type_synonym 'k py_dict = "('k \<times> real) list"

definition dict_values :: "'k py_dict \<Rightarrow> real list" where
  "dict_values data = map snd data"

text \<open>The loop \<^verbatim>\<open>for k in data.keys(): data[k] += smoothed_maxval\<close>.\<close>

definition add_to_all :: "real \<Rightarrow> 'k py_dict \<Rightarrow> 'k py_dict" where
  "add_to_all smoothed_maxval data = map (\<lambda>(k, v). (k, v + smoothed_maxval)) data"

text \<open>
  The dictionary comprehension: the entries are evaluated in order and the first
  exception ends the evaluation.
\<close>

fun weights_of :: "real \<Rightarrow> real \<Rightarrow> 'k py_dict \<Rightarrow> error + 'k py_dict" where
  "weights_of majority clip [] = Inr []"
| "weights_of majority clip ((k, v) # rest) =
     (case py_div majority v of
        Inl e \<Rightarrow> Inl e
      | Inr q \<Rightarrow>
          (case weights_of majority clip rest of
             Inl e \<Rightarrow> Inl e
           | Inr ws \<Rightarrow> Inr ((k, np_clip (py_round q 2) 0 clip) # ws)))"

text \<open>The statements after the smoothing block, on the dictionary as it then is.\<close>

definition weigh :: "'k py_dict \<Rightarrow> real \<Rightarrow> 'k py_dict \<times> (error + 'k py_dict)" where
  "weigh data clip =
     (case py_max (dict_values data) of
        Inl e \<Rightarrow> (data, Inl e)
      | Inr majority \<Rightarrow> (data, weights_of majority clip data))"

definition compute_class_weights ::
  "'k py_dict \<Rightarrow> real \<Rightarrow> real \<Rightarrow> 'k py_dict \<times> (error + 'k py_dict)" where
  "compute_class_weights data smoothing clip =
     (if \<not> (smoothing \<ge> 0 \<and> smoothing \<le> 1) then (data, Inl SmoothingOutOfRange)
      else if smoothing > 0 then
        (case py_max (dict_values data) of
           Inl e \<Rightarrow> (data, Inl e)
         | Inr m \<Rightarrow> weigh (add_to_all (m * smoothing) data) clip)
      else weigh data clip)"

subsection \<open>\<^verbatim>\<open>compute_class_weights\<close> in double arithmetic\<close>

text \<open>
  A Python \<^verbatim>\<open>float\<close> is an IEEE 754 binary64 number: a significand of 53 bits and a
  power of two. Every operation on floats returns the double nearest to the exact
  result, a tie going to the even significand. \<open>to_double\<close> is that rounding: for
  \<open>x \<noteq> 0\<close>, \<open>exponent x\<close> is the \<open>e\<close> with \<open>2 ^ e \<le> \<bar>x\<bar> < 2 ^ (e + 1)\<close>, and \<open>x\<close> is rounded
  to a multiple of \<open>2 ^ (e - 52)\<close>. The range of the exponent is not bounded: a result
  beyond the largest double (about \<open>1.8e308\<close>) or below the smallest normal one (about
  \<open>2.2e-308\<close>), the infinities and NaN are outside the model.
\<close>

definition exponent :: "real \<Rightarrow> int" where
  "exponent x =
     (if 1 \<le> \<bar>x\<bar> then bitlen \<lfloor>\<bar>x\<bar>\<rfloor> - 1 else - bitlen (\<lceil>1 / \<bar>x\<bar>\<rceil> - 1))"

definition to_double :: "real \<Rightarrow> real" where
  "to_double x =
     (if x = 0 then 0
      else of_int (round_half_even (x * 2 powi (52 - exponent x))) * 2 powi (exponent x - 52))"

text \<open>
  The source again, with the result of each operation rounded as Python rounds it:
  \<^item> \<^verbatim>\<open>max(...) * smoothing\<close> converts the count to a float and multiplies two floats;
  \<^item> \<^verbatim>\<open>data[k] += smoothed_maxval\<close> converts the count to a float and adds two floats;
  \<^item> \<^verbatim>\<open>majority / v\<close> is the double nearest to the quotient, for two ints (true division
    is correctly rounded) as for two floats;
  \<^item> \<^verbatim>\<open>round(x, ndigits=2)\<close> rounds the exact value of the double \<^verbatim>\<open>x\<close> to the nearest
    multiple of \<open>0.01\<close>, a tie going to the even multiple, and returns the double nearest
    to that decimal;
  \<^item> comparisons, \<^verbatim>\<open>max\<close> and \<^verbatim>\<open>np.clip\<close> are exact.
\<close>

definition py_div_f64 :: "real \<Rightarrow> real \<Rightarrow> error + real" where
  "py_div_f64 a b = (if b = 0 then Inl ZeroDivisionError else Inr (to_double (a / b)))"

definition py_round_f64 :: "real \<Rightarrow> nat \<Rightarrow> real" where
  "py_round_f64 x ndigits =
     to_double (of_int (round_half_even (x * 10 ^ ndigits)) / 10 ^ ndigits)"

definition add_to_all_f64 :: "real \<Rightarrow> 'k py_dict \<Rightarrow> 'k py_dict" where
  "add_to_all_f64 smoothed_maxval data =
     map (\<lambda>(k, v). (k, to_double (to_double v + smoothed_maxval))) data"

fun weights_of_f64 :: "real \<Rightarrow> real \<Rightarrow> 'k py_dict \<Rightarrow> error + 'k py_dict" where
  "weights_of_f64 majority clip [] = Inr []"
| "weights_of_f64 majority clip ((k, v) # rest) =
     (case py_div_f64 majority v of
        Inl e \<Rightarrow> Inl e
      | Inr q \<Rightarrow>
          (case weights_of_f64 majority clip rest of
             Inl e \<Rightarrow> Inl e
           | Inr ws \<Rightarrow> Inr ((k, np_clip (py_round_f64 q 2) 0 clip) # ws)))"

definition weigh_f64 :: "'k py_dict \<Rightarrow> real \<Rightarrow> 'k py_dict \<times> (error + 'k py_dict)" where
  "weigh_f64 data clip =
     (case py_max (dict_values data) of
        Inl e \<Rightarrow> (data, Inl e)
      | Inr majority \<Rightarrow> (data, weights_of_f64 majority clip data))"

definition compute_class_weights_f64 ::
  "'k py_dict \<Rightarrow> real \<Rightarrow> real \<Rightarrow> 'k py_dict \<times> (error + 'k py_dict)" where
  "compute_class_weights_f64 data smoothing clip =
     (if \<not> (smoothing \<ge> 0 \<and> smoothing \<le> 1) then (data, Inl SmoothingOutOfRange)
      else if smoothing > 0 then
        (case py_max (dict_values data) of
           Inl e \<Rightarrow> (data, Inl e)
         | Inr m \<Rightarrow> weigh_f64 (add_to_all_f64 (to_double (to_double m * smoothing)) data) clip)
      else weigh_f64 data clip)"

text \<open>
  The weight as the specification words it, for comparison with the source: the quotient
  rounded to 2 decimal places "half up" (a tie goes to the larger multiple), then clipped
  to \<open>[0, clip]\<close>.
\<close>

definition round_half_up :: "real \<Rightarrow> int" where
  "round_half_up y = \<lfloor>y + 1 / 2\<rfloor>"

definition spec_weight :: "real \<Rightarrow> real \<Rightarrow> real \<Rightarrow> real" where
  "spec_weight majority v clip =
     np_clip (of_int (round_half_up (majority / v * 10 ^ 2)) / 10 ^ 2) 0 clip"

subsection \<open>String built-ins\<close>

text \<open>\<^verbatim>\<open>os.path.basename(p)\<close>: what follows the last \<^verbatim>\<open>/\<close> of \<^verbatim>\<open>p\<close>.\<close>

definition basename :: "string \<Rightarrow> string" where
  "basename p = rev (takeWhile (\<lambda>c. c \<noteq> CHR ''/'') (rev p))"

text \<open>
  \<^verbatim>\<open>s.replace(old, new)\<close> scans \<^verbatim>\<open>s\<close> from the left and replaces the occurrences of
  \<^verbatim>\<open>old\<close> that do not overlap an earlier one; the text already produced is not scanned
  again. With an empty \<^verbatim>\<open>old\<close>, \<^verbatim>\<open>new\<close> is put before every character and at the end.
\<close>

fun py_replace :: "string \<Rightarrow> string \<Rightarrow> string \<Rightarrow> string" where
  "py_replace old new [] = (if old = [] then new else [])"
| "py_replace old new (c # cs) =
     (if old = [] then new @ c # py_replace old new cs
      else if prefix old (c # cs) then new @ py_replace old new (drop (length old) (c # cs))
      else c # py_replace old new cs)"

text \<open>
  \<^verbatim>\<open>s.split(sep)\<close> cuts \<^verbatim>\<open>s\<close> at the occurrences of \<^verbatim>\<open>sep\<close>, found from the left
  without overlap, and raises \<^verbatim>\<open>ValueError\<close> for an empty separator. The result always
  has at least one element.
\<close>

fun split_on :: "string \<Rightarrow> string \<Rightarrow> string list" where
  "split_on sep [] = [[]]"
| "split_on sep (c # cs) =
     (if sep \<noteq> [] \<and> prefix sep (c # cs) then [] # split_on sep (drop (length sep) (c # cs))
      else (case split_on sep cs of
              p # ps \<Rightarrow> (c # p) # ps
            | [] \<Rightarrow> [[c]]))"

definition py_split :: "string \<Rightarrow> string \<Rightarrow> error + string list" where
  "py_split s sep = (if sep = [] then Inl ValueError else Inr (split_on sep s))"

text \<open>
  \<^verbatim>\<open>float(s)\<close> is a parameter \<open>to_float\<close> of the model of \<^verbatim>\<open>find_best_checkpoint\<close>:
  a function from strings to numbers that is \<open>None\<close> where \<^verbatim>\<open>float\<close> raises
  \<^verbatim>\<open>ValueError\<close>. The closed evaluations use \<open>decimal_literal\<close>, which reads an
  optional sign, digits, and an optional point with digits, as \<^verbatim>\<open>float\<close> does on such
  strings, and is \<open>None\<close> on every string with another character (the exponent, the
  underscore, the blanks and the names \<^verbatim>\<open>inf\<close> and \<^verbatim>\<open>nan\<close> that \<^verbatim>\<open>float\<close> also
  accepts are left out, and no evaluation below meets them where \<^verbatim>\<open>float\<close> would
  accept).
\<close>

definition is_digit :: "char \<Rightarrow> bool" where
  "is_digit c = (48 \<le> (of_char c :: nat) \<and> (of_char c :: nat) \<le> 57)"

definition digits_value :: "string \<Rightarrow> nat" where
  "digits_value ds = foldl (\<lambda>n c. 10 * n + ((of_char c :: nat) - 48)) 0 ds"

definition unsigned_literal :: "string \<Rightarrow> real option" where
  "unsigned_literal body =
     (let ip = takeWhile is_digit body; rest = dropWhile is_digit body
      in case rest of
           [] \<Rightarrow> if ip = [] then None else Some (real (digits_value ip))
         | c # fp \<Rightarrow>
             if c = CHR ''.'' \<and> list_all is_digit fp \<and> (ip \<noteq> [] \<or> fp \<noteq> [])
             then Some (real (digits_value ip) + real (digits_value fp) / 10 ^ length fp)
             else None)"

definition decimal_literal :: "string \<Rightarrow> real option" where
  "decimal_literal s =
     (case s of
        [] \<Rightarrow> None
      | c # r \<Rightarrow>
          if c = CHR ''-'' then map_option uminus (unsigned_literal r)
          else if c = CHR ''+'' then unsigned_literal r
          else unsigned_literal s)"

subsection \<open>\<^verbatim>\<open>find_best_checkpoint\<close>\<close>

text \<open>
  \<^verbatim>\<open>
  def find_best_checkpoint(folder, model_name="*.pth", divider="_"):
      wildcard_path = folder / model_name
      models = list(glob(str(wildcard_path)))
      assert len(models) > 0, f"No models found for pattern '{wildcard_path}'"
      current_best = None
      current_best_metric = None
      for model_path in models:
          model_name = os.path.basename(model_path).replace(".pth", "")
          components = model_name.split(divider)
          if len(components) > 2:
              mtype, _, metric_str = components
          else:
              mtype, metric_str = components
          assert mtype == "classifier" or mtype == "segmenter", f"Unknown model type '{mtype}'"
          model_metric = float(metric_str.split("-")[-1])
          if not current_best_metric or current_best_metric < model_metric:
              current_best_metric = model_metric
              current_best = model_path
      return current_best
  \<close>
  The directory listing \<^verbatim>\<open>glob\<close> returns is the argument \<open>models\<close> of the model.
\<close>

text \<open>
  The two tuple assignments: each raises \<^verbatim>\<open>ValueError\<close> unless the list has as many
  elements as there are targets.
\<close>

definition unpack :: "string list \<Rightarrow> error + (string \<times> string)" where
  "unpack components =
     (if length components > 2 then
        (case components of
           [mtype, _, metric_str] \<Rightarrow> Inr (mtype, metric_str)
         | _ \<Rightarrow> Inl ValueError)
      else
        (case components of
           [mtype, metric_str] \<Rightarrow> Inr (mtype, metric_str)
         | _ \<Rightarrow> Inl ValueError))"

text \<open>\<^verbatim>\<open>model_name = os.path.basename(model_path).replace(".pth", "")\<close>.\<close>

definition model_name_of :: "string \<Rightarrow> string" where
  "model_name_of model_path = py_replace ''.pth'' [] (basename model_path)"

text \<open>The loop body up to the assignment of \<^verbatim>\<open>model_metric\<close>.\<close>

definition model_metric_of :: "(string \<Rightarrow> real option) \<Rightarrow> string \<Rightarrow> string \<Rightarrow> error + real" where
  "model_metric_of to_float divider model_path =
     (let model_name = model_name_of model_path
      in case py_split model_name divider of
           Inl e \<Rightarrow> Inl e
         | Inr components \<Rightarrow>
             (case unpack components of
                Inl e \<Rightarrow> Inl e
              | Inr (mtype, metric_str) \<Rightarrow>
                  if \<not> (mtype = ''classifier'' \<or> mtype = ''segmenter'')
                  then Inl (UnknownModelType mtype)
                  else (case py_split metric_str ''-'' of
                          Inl e \<Rightarrow> Inl e
                        | Inr parts \<Rightarrow>
                            (case to_float (last parts) of
                               None \<Rightarrow> Inl ValueError
                             | Some model_metric \<Rightarrow> Inr model_metric))))"

text \<open>
  \<^verbatim>\<open>not current_best_metric or current_best_metric < model_metric\<close>: \<^verbatim>\<open>not x\<close> is true
  for \<^verbatim>\<open>None\<close> and for the float \<^verbatim>\<open>0.0\<close>.
\<close>

definition takes_over :: "real option \<Rightarrow> real \<Rightarrow> bool" where
  "takes_over current_best_metric model_metric =
     (case current_best_metric of
        None \<Rightarrow> True
      | Some b \<Rightarrow> b = 0 \<or> b < model_metric)"

text \<open>The \<^verbatim>\<open>for\<close> loop, on the pair of \<^verbatim>\<open>current_best\<close> and \<^verbatim>\<open>current_best_metric\<close>.\<close>

fun scan_models ::
  "(string \<Rightarrow> real option) \<Rightarrow> string \<Rightarrow> string list \<Rightarrow> string option \<times> real option
     \<Rightarrow> error + (string option \<times> real option)" where
  "scan_models to_float divider [] st = Inr st"
| "scan_models to_float divider (model_path # rest) (current_best, current_best_metric) =
     (case model_metric_of to_float divider model_path of
        Inl e \<Rightarrow> Inl e
      | Inr model_metric \<Rightarrow>
          if takes_over current_best_metric model_metric
          then scan_models to_float divider rest (Some model_path, Some model_metric)
          else scan_models to_float divider rest (current_best, current_best_metric))"

definition find_best_checkpoint ::
  "(string \<Rightarrow> real option) \<Rightarrow> string list \<Rightarrow> string \<Rightarrow> error + string option" where
  "find_best_checkpoint to_float models divider =
     (if \<not> length models > 0 then Inl NoModelsFound
      else (case scan_models to_float divider models (None, None) of
              Inl e \<Rightarrow> Inl e
            | Inr (current_best, current_best_metric) \<Rightarrow> Inr current_best))"

section \<open>Properties of \<^verbatim>\<open>compute_class_weights\<close>\<close>

subsection \<open>What a call returns and what it leaves behind\<close>

lemma weights_of_eq:
  "weights_of m c data =
     (if 0 \<in> set (dict_values data) then Inl ZeroDivisionError
      else Inr (map (\<lambda>(k, v). (k, np_clip (py_round (m / v) 2) 0 c)) data))"
proof (induction data)
  case Nil
  show ?case by (simp add: dict_values_def)
next
  case (Cons kv rest)
  obtain k v where kv: "kv = (k, v)" by (cases kv)
  show ?case using Cons by (simp add: kv dict_values_def py_div_def)
qed

lemma dict_values_add_to_all:
  "dict_values (add_to_all x data) = map (\<lambda>v. v + x) (dict_values data)"
  by (simp add: dict_values_def add_to_all_def split_def)

lemma dict_values_Nil_iff: "dict_values data = [] \<longleftrightarrow> data = []"
  by (simp add: dict_values_def)

lemma add_to_all_Nil_iff: "add_to_all x data = [] \<longleftrightarrow> data = []"
  by (simp add: add_to_all_def)

lemma Max_shift:
  fixes vs :: "real list"
  assumes "vs \<noteq> []"
  shows "Max (set (map (\<lambda>v. v + x) vs)) = Max (set vs) + x"
proof -
  have "mono (\<lambda>v::real. v + x)" by (simp add: mono_def)
  from mono_Max_commute[OF this, of "set vs"] assms show ?thesis by simp
qed

lemma compute_fst:
  "fst (compute_class_weights data smoothing clip) =
     (if 0 < smoothing \<and> smoothing \<le> 1 \<and> data \<noteq> []
      then add_to_all (Max (set (dict_values data)) * smoothing) data else data)"
  by (auto simp: compute_class_weights_def weigh_def py_max_def dict_values_Nil_iff
      add_to_all_Nil_iff split: sum.splits)

lemma compute_snd:
  "snd (compute_class_weights data smoothing clip) =
     (if \<not> (0 \<le> smoothing \<and> smoothing \<le> 1) then Inl SmoothingOutOfRange
      else if data = [] then Inl ValueError
      else weights_of (Max (set (dict_values (fst (compute_class_weights data smoothing clip)))))
             clip (fst (compute_class_weights data smoothing clip)))"
  by (auto simp: compute_class_weights_def weigh_def py_max_def dict_values_Nil_iff
      add_to_all_Nil_iff split: sum.splits)



subsection \<open>When the call raises\<close>

lemma Max_in_list:
  fixes vs :: "real list"
  shows "vs \<noteq> [] \<Longrightarrow> Max (set vs) \<in> set vs"
  by (rule Max_in) simp_all

lemma Max_nonneg_zero_iff:
  fixes vs :: "real list"
  assumes "vs \<noteq> []" and "\<forall>v\<in>set vs. 0 \<le> v"
  shows "Max (set vs) = 0 \<longleftrightarrow> (\<forall>v\<in>set vs. v = 0)"
proof
  assume m: "Max (set vs) = 0"
  show "\<forall>v\<in>set vs. v = 0"
  proof
    fix v assume v: "v \<in> set vs"
    then have "v \<le> Max (set vs)" by simp
    with m assms(2) v show "v = 0" by fastforce
  qed
next
  assume z: "\<forall>v\<in>set vs. v = 0"
  have "Max (set vs) \<in> set vs" using assms(1) by (rule Max_in_list)
  with z show "Max (set vs) = 0" by blast
qed

lemma Max_nonneg:
  fixes vs :: "real list"
  assumes "vs \<noteq> []" and "\<forall>v\<in>set vs. 0 \<le> v"
  shows "0 \<le> Max (set vs)"
proof -
  have "Max (set vs) \<in> set vs" using assms(1) by (rule Max_in_list)
  with assms(2) show ?thesis by blast
qed

text \<open>A zero among the counts after the smoothing block, for counts that are not negative.\<close>

lemma zero_after_smoothing_iff:
  assumes nonneg: "\<forall>v\<in>set (dict_values data). 0 \<le> v"
    and ne: "data \<noteq> []" and s: "0 \<le> smoothing" "smoothing \<le> 1"
  shows "0 \<in> set (dict_values (fst (compute_class_weights data smoothing clip))) \<longleftrightarrow>
         (\<forall>v\<in>set (dict_values data). v = 0) \<or> (smoothing = 0 \<and> 0 \<in> set (dict_values data))"
proof (cases "smoothing = 0")
  case True
  have "(\<forall>v\<in>set (dict_values data). v = 0) \<Longrightarrow> 0 \<in> set (dict_values data)"
    using ne by (cases data) (auto simp: dict_values_def)
  then show ?thesis using True by (auto simp: compute_fst)
next
  case False
  with s have pos: "0 < smoothing" by simp
  define M where "M = Max (set (dict_values data))"
  have vs_ne: "dict_values data \<noteq> []" using ne by (simp add: dict_values_Nil_iff)
  have M0: "0 \<le> M" unfolding M_def using Max_nonneg[OF vs_ne nonneg] .
  have Mz: "M = 0 \<longleftrightarrow> (\<forall>v\<in>set (dict_values data). v = 0)"
    unfolding M_def using Max_nonneg_zero_iff[OF vs_ne nonneg] .
  have fst_eq: "fst (compute_class_weights data smoothing clip) = add_to_all (M * smoothing) data"
    using pos s ne by (simp add: compute_fst M_def)
  have "0 \<in> set (dict_values (add_to_all (M * smoothing) data)) \<longleftrightarrow>
        (\<exists>v\<in>set (dict_values data). v + M * smoothing = 0)"
    by (auto simp: dict_values_add_to_all)
  also have "\<dots> \<longleftrightarrow> (\<exists>v\<in>set (dict_values data). v = 0 \<and> M = 0)"
  proof -
    have "v + M * smoothing = 0 \<longleftrightarrow> v = 0 \<and> M = 0" if "v \<in> set (dict_values data)" for v
    proof -
      have v0: "0 \<le> v" using nonneg that by blast
      have ms: "0 \<le> M * smoothing" using M0 pos by simp
      show ?thesis
      proof
        assume "v + M * smoothing = 0"
        with v0 ms have "v = 0" "M * smoothing = 0" by linarith+
        with pos show "v = 0 \<and> M = 0" by simp
      qed simp
    qed
    then show ?thesis by blast
  qed
  also have "\<dots> \<longleftrightarrow> (\<forall>v\<in>set (dict_values data). v = 0)"
  proof
    assume "\<exists>v\<in>set (dict_values data). v = 0 \<and> M = 0"
    then show "\<forall>v\<in>set (dict_values data). v = 0" using Mz by blast
  next
    assume a: "\<forall>v\<in>set (dict_values data). v = 0"
    obtain v where "v \<in> set (dict_values data)" using vs_ne by (cases "dict_values data") auto
    with a Mz show "\<exists>v\<in>set (dict_values data). v = 0 \<and> M = 0" by blast
  qed
  finally show ?thesis using False fst_eq by simp
qed

lemma compute_returns:
  assumes "0 \<le> smoothing" "smoothing \<le> 1" "data \<noteq> []"
    and "0 \<notin> set (dict_values (fst (compute_class_weights data smoothing clip)))"
  shows "snd (compute_class_weights data smoothing clip) =
           Inr (map (\<lambda>(k, v). (k, np_clip (py_round
                  (Max (set (dict_values (fst (compute_class_weights data smoothing clip)))) / v) 2) 0 clip))
                (fst (compute_class_weights data smoothing clip)))"
  using assms by (simp add: compute_snd weights_of_eq)

lemma py_round_one: "py_round 1 2 = 1"
  by (simp add: py_round_def round_half_even_def)

text \<open>
  Claim C3, as amended. For counts that are not negative, the call raises if and only
  if \<open>smoothing\<close> is outside \<open>[0, 1]\<close>, or the dictionary is empty, or every count is
  zero, or \<open>smoothing = 0\<close> and some count is zero. The exception is the
  \<^verbatim>\<open>AssertionError\<close> of the first statement in the first case, the \<^verbatim>\<open>ValueError\<close> of
  \<^verbatim>\<open>max\<close> in the second and a \<^verbatim>\<open>ZeroDivisionError\<close> in the others.
\<close>

theorem compute_fails_iff:
  assumes nonneg: "\<forall>v\<in>set (dict_values data). 0 \<le> v"
  shows "((\<exists>e. snd (compute_class_weights data smoothing clip) = Inl e) \<longleftrightarrow>
           smoothing < 0 \<or> 1 < smoothing \<or> data = []
           \<or> (\<forall>v\<in>set (dict_values data). v = 0)
           \<or> (smoothing = 0 \<and> 0 \<in> set (dict_values data)))
       \<and> (\<forall>e. snd (compute_class_weights data smoothing clip) = Inl e \<longrightarrow>
             e = (if smoothing < 0 \<or> 1 < smoothing then SmoothingOutOfRange
                  else if data = [] then ValueError else ZeroDivisionError))"
proof (cases "0 \<le> smoothing \<and> smoothing \<le> 1")
  case False
  then show ?thesis by (auto simp: compute_snd)
next
  case range: True
  show ?thesis
  proof (cases "data = []")
    case True
    then show ?thesis using range by (auto simp: compute_snd)
  next
    case False
    from range have s: "0 \<le> smoothing" "smoothing \<le> 1" by simp_all
    note z = zero_after_smoothing_iff[OF nonneg False s, of clip]
    show ?thesis using range False z
      by (auto simp: compute_snd weights_of_eq)
  qed
qed

theorem compute_fails_iff_witness:
  "(\<exists>e. snd (compute_class_weights [(''a'', 0), (''b'', 0)] (1 / 2) 10) = Inl e)
   \<and> \<not> (\<exists>e. snd (compute_class_weights [(''a'', 4), (''b'', 0)] (1 / 2) 10) = Inl e)"
  using compute_fails_iff[of "[(''a'', 0), (''b'', 0)]" "1 / 2" 10]
        compute_fails_iff[of "[(''a'', 4), (''b'', 0)]" "1 / 2" 10]
  by (simp add: dict_values_def)

text \<open>
  Claim C3 as stated fails: with \<open>smoothing = 0\<close> the counts \<open>{a: 3, b: 0}\<close> make the call
  raise (\<open>3 / 0\<close>), although \<open>smoothing\<close> is in range, the dictionary is not empty and not
  every count is zero.
\<close>

theorem compute_fails_iff_counterexample:
  "\<not> ((\<exists>e. snd (compute_class_weights [(''a'', 3), (''b'', 0)] 0 10) = Inl e) \<longleftrightarrow>
        ((0::real) < 0 \<or> (1::real) < 0 \<or> [(''a'', 3::real), (''b'', 0)] = []
         \<or> (\<forall>v\<in>set (dict_values [(''a'', 3), (''b'', 0)]). v = 0)))"
  by (simp add: compute_class_weights_def weigh_def py_max_def dict_values_def py_div_def)

text \<open>
  Claim C9. For counts that are not negative and whose maximum is positive, a
  \<open>smoothing\<close> in \<open>(0, 1]\<close> makes every count positive after the smoothing block, no
  division raises and the call returns. With \<open>smoothing = 0\<close> the call returns if and
  only if every count is positive.
\<close>

theorem smoothing_keeps_division_defined:
  assumes nonneg: "\<forall>v\<in>set (dict_values data). 0 \<le> v" and ne: "data \<noteq> []"
  shows "(0 < smoothing \<and> smoothing \<le> 1 \<and> 0 < Max (set (dict_values data)) \<longrightarrow>
            (\<forall>v\<in>set (dict_values (fst (compute_class_weights data smoothing clip))).
                0 < v \<and> py_div (Max (set (dict_values (fst (compute_class_weights data smoothing clip))))) v
                         \<noteq> Inl ZeroDivisionError)
            \<and> (\<exists>ws. snd (compute_class_weights data smoothing clip) = Inr ws))
       \<and> ((\<exists>ws. snd (compute_class_weights data 0 clip) = Inr ws) \<longleftrightarrow>
            (\<forall>v\<in>set (dict_values data). 0 < v))"
proof (intro conjI impI)
  assume a: "0 < smoothing \<and> smoothing \<le> 1 \<and> 0 < Max (set (dict_values data))"
  define M where "M = Max (set (dict_values data))"
  have fst_eq: "fst (compute_class_weights data smoothing clip) = add_to_all (M * smoothing) data"
    using a ne by (simp add: compute_fst M_def)
  have ms: "0 < M * smoothing" using a by (simp add: M_def)
  have pos: "\<forall>v\<in>set (dict_values (fst (compute_class_weights data smoothing clip))). 0 < v"
  proof
    fix v assume "v \<in> set (dict_values (fst (compute_class_weights data smoothing clip)))"
    then obtain u where u: "u \<in> set (dict_values data)" and v: "v = u + M * smoothing"
      by (auto simp: fst_eq dict_values_add_to_all)
    from nonneg u have "0 \<le> u" by blast
    with ms v show "0 < v" by simp
  qed
  then show "\<forall>v\<in>set (dict_values (fst (compute_class_weights data smoothing clip))).
                0 < v \<and> py_div (Max (set (dict_values (fst (compute_class_weights data smoothing clip))))) v
                         \<noteq> Inl ZeroDivisionError"
    by (auto simp: py_div_def)
  from pos have "0 \<notin> set (dict_values (fst (compute_class_weights data smoothing clip)))"
    by force
  with compute_returns[of smoothing data clip] a ne
  show "\<exists>ws. snd (compute_class_weights data smoothing clip) = Inr ws" by simp
next
  have "0 \<in> set (dict_values data) \<longleftrightarrow> \<not> (\<forall>v\<in>set (dict_values data). 0 < v)"
    using nonneg by force
  then show "(\<exists>ws. snd (compute_class_weights data 0 clip) = Inr ws) \<longleftrightarrow>
            (\<forall>v\<in>set (dict_values data). 0 < v)"
    using ne by (auto simp: compute_snd compute_fst weights_of_eq)
qed

theorem smoothing_keeps_division_defined_witness:
  "(\<exists>ws. snd (compute_class_weights [(''a'', 5), (''b'', 0)] (1 / 2) 10) = Inr ws)
   \<and> \<not> (\<exists>ws. snd (compute_class_weights [(''a'', 5), (''b'', 0)] 0 10) = Inr ws)"
  using smoothing_keeps_division_defined[of "[(''a'', 5), (''b'', 0)]" "1 / 2" 10]
  by (simp add: dict_values_def)

subsection \<open>The weight of the majority class\<close>

text \<open>
  Claim C4, as amended. For counts that are not negative, with one positive, a
  \<open>smoothing\<close> in \<open>[0, 1]\<close> and, when \<open>smoothing = 0\<close>, no zero count, the call returns
  and gives every class whose count after smoothing is the maximum the weight
  \<open>min(clip, 1)\<close>: exactly \<open>1\<close> when \<open>clip \<ge> 1\<close>.
\<close>

theorem majority_weight:
  assumes nonneg: "\<forall>v\<in>set (dict_values data). 0 \<le> v"
    and pos: "\<exists>v\<in>set (dict_values data). 0 < v"
    and s: "0 \<le> smoothing" "smoothing \<le> 1"
    and nz: "0 < smoothing \<or> 0 \<notin> set (dict_values data)"
  shows "\<exists>ws. snd (compute_class_weights data smoothing clip) = Inr ws
           \<and> length ws = length data
           \<and> (\<forall>i<length data.
                 snd (fst (compute_class_weights data smoothing clip) ! i)
                   = Max (set (dict_values (fst (compute_class_weights data smoothing clip))))
                 \<longrightarrow> fst (ws ! i) = fst (data ! i) \<and> snd (ws ! i) = min clip 1)"
proof -
  from pos have ne: "data \<noteq> []" by (auto simp: dict_values_def)
  define data' where "data' = fst (compute_class_weights data smoothing clip)"
  define M' where "M' = Max (set (dict_values data'))"
  have nozero: "0 \<notin> set (dict_values data')"
  proof
    assume "0 \<in> set (dict_values data')"
    then have "(\<forall>v\<in>set (dict_values data). v = 0) \<or> (smoothing = 0 \<and> 0 \<in> set (dict_values data))"
      unfolding data'_def using zero_after_smoothing_iff[OF nonneg ne s, of clip] by simp
    with pos nz show False by force
  qed
  have len: "length data' = length data" and keys: "map fst data' = map fst data"
    unfolding data'_def by (simp_all add: compute_fst add_to_all_def split_def)
  define ws where "ws = map (\<lambda>(k, v). (k, np_clip (py_round (M' / v) 2) 0 clip)) data'"
  have ret: "snd (compute_class_weights data smoothing clip) = Inr ws"
    using compute_returns[OF s ne, of clip] nozero unfolding data'_def ws_def M'_def by simp
  have "fst (ws ! i) = fst (data ! i) \<and> snd (ws ! i) = min clip 1"
    if i: "i < length data" and m: "snd (data' ! i) = M'" for i
  proof -
    have i': "i < length data'" using i len by simp
    have "snd (data' ! i) \<in> set (dict_values data')"
      using i' by (simp add: dict_values_def)
    with nozero m have M0: "M' \<noteq> 0" by metis
    have k: "fst (data' ! i) = fst (data ! i)"
      using keys i i' by (metis nth_map)
    have "ws ! i = (fst (data' ! i), np_clip (py_round (M' / snd (data' ! i)) 2) 0 clip)"
      using i' by (simp add: ws_def split_def)
    then show ?thesis using k m M0 by (simp add: py_round_one np_clip_def)
  qed
  then show ?thesis using ret len unfolding data'_def M'_def ws_def by simp
qed

theorem majority_weight_witness:
  "\<exists>ws. snd (compute_class_weights [(''a'', 1), (''b'', 3)] (1 / 2) 10) = Inr ws
      \<and> fst (ws ! 1) = ''b'' \<and> snd (ws ! 1) = 1"
proof -
  let ?D = "[(''a'', 1), (''b'', 3)] :: (string \<times> real) list"
  let ?D' = "fst (compute_class_weights ?D (1 / 2) 10)"
  have "\<exists>ws. snd (compute_class_weights ?D (1 / 2) 10) = Inr ws \<and> length ws = length ?D
          \<and> (\<forall>i<length ?D. snd (?D' ! i) = Max (set (dict_values ?D'))
                \<longrightarrow> fst (ws ! i) = fst (?D ! i) \<and> snd (ws ! i) = min 10 1)"
    by (rule majority_weight) (simp_all add: dict_values_def)
  then obtain ws where r: "snd (compute_class_weights ?D (1 / 2) 10) = Inr ws"
    and a: "\<forall>i<length ?D. snd (?D' ! i) = Max (set (dict_values ?D'))
                \<longrightarrow> fst (ws ! i) = fst (?D ! i) \<and> snd (ws ! i) = min 10 1"
    by blast
  from a have "snd (?D' ! 1) = Max (set (dict_values ?D'))
                \<longrightarrow> fst (ws ! 1) = fst (?D ! 1) \<and> snd (ws ! 1) = min 10 1"
    by simp
  then have "fst (ws ! 1) = ''b'' \<and> snd (ws ! 1) = 1"
    by (simp add: compute_fst add_to_all_def dict_values_def)
  with r show ?thesis by blast
qed

text \<open>
  Claim C4 as stated fails in two ways: with \<open>smoothing = 0\<close> and the counts
  \<open>{a: 1, b: 0}\<close> the call raises and maps no class to anything, and with \<open>clip = 0.5\<close>
  the majority class of \<open>{a: 2, b: 1}\<close> gets the weight \<open>0.5\<close>.
\<close>

theorem majority_weight_counterexample:
  "compute_class_weights [(''a'', 1), (''b'', 0)] 0 10 = ([(''a'', 1), (''b'', 0)], Inl ZeroDivisionError)
   \<and> compute_class_weights [(''a'', 2), (''b'', 1)] 0 (1 / 2)
       = ([(''a'', 2), (''b'', 1)], Inr [(''a'', 1 / 2), (''b'', 1 / 2)])"
  by (simp add: compute_class_weights_def weigh_def py_max_def dict_values_def add_to_all_def
      py_div_def np_clip_def py_round_def round_half_even_def Let_def)

section \<open>Properties of \<^verbatim>\<open>compute_class_weights\<close> in double arithmetic\<close>

subsection \<open>Rounding to an integer and to a double\<close>

lemma round_half_even_cases:
  "round_half_even y = \<lfloor>y\<rfloor> \<or> round_half_even y = \<lfloor>y\<rfloor> + 1"
  by (simp add: round_half_even_def Let_def)

lemma round_half_even_near:
  "\<bar>of_int (round_half_even y) - y\<bar> \<le> 1 / 2"
proof -
  have "of_int \<lfloor>y\<rfloor> \<le> y" "y < of_int \<lfloor>y\<rfloor> + 1" by linarith+
  then show ?thesis by (auto simp: round_half_even_def Let_def)
qed

lemma round_half_even_tie:
  assumes "\<bar>of_int (round_half_even y) - y\<bar> = 1 / 2"
  shows "even (round_half_even y)"
proof -
  have fl: "of_int \<lfloor>y\<rfloor> \<le> y" "y < of_int \<lfloor>y\<rfloor> + 1" by linarith+
  show ?thesis
  proof (cases "y - of_int \<lfloor>y\<rfloor> < 1 / 2")
    case True
    then have "round_half_even y = \<lfloor>y\<rfloor>" by (simp add: round_half_even_def Let_def)
    with assms True fl show ?thesis by simp
  next
    case nl: False
    show ?thesis
    proof (cases "1 / 2 < y - of_int \<lfloor>y\<rfloor>")
      case True
      then have "round_half_even y = \<lfloor>y\<rfloor> + 1" using nl by (simp add: round_half_even_def Let_def)
      with assms True fl show ?thesis by simp
    next
      case False
      then show ?thesis using nl by (simp add: round_half_even_def Let_def)
    qed
  qed
qed

lemma round_half_even_mono:
  assumes "x \<le> y"
  shows "round_half_even x \<le> round_half_even y"
proof -
  have le: "\<lfloor>x\<rfloor> \<le> \<lfloor>y\<rfloor>" using assms by (rule floor_mono)
  show ?thesis
  proof (cases "\<lfloor>x\<rfloor> = \<lfloor>y\<rfloor>")
    case False
    with le have "\<lfloor>x\<rfloor> + 1 \<le> \<lfloor>y\<rfloor>" by simp
    moreover have "round_half_even x \<le> \<lfloor>x\<rfloor> + 1"
      using round_half_even_cases[of x] by auto
    moreover have "\<lfloor>y\<rfloor> \<le> round_half_even y"
      using round_half_even_cases[of y] by auto
    ultimately show ?thesis by linarith
  next
    case True
    have "x - of_int \<lfloor>x\<rfloor> \<le> y - of_int \<lfloor>y\<rfloor>" using assms True by simp
    then show ?thesis using True
      by (auto simp: round_half_even_def Let_def)
  qed
qed


lemma py_round_2_near:
  "\<bar>of_int (round_half_even (x * 100)) / 100 - x\<bar> \<le> 1 / 200"
  using round_half_even_near[of "x * 100"] by (simp add: abs_if field_simps split: if_splits)

lemma py_round_2_tie:
  "\<bar>of_int (round_half_even (x * 100)) / 100 - x\<bar> = 1 / 200 \<Longrightarrow> even (round_half_even (x * 100))"
proof -
  assume a: "\<bar>of_int (round_half_even (x * 100)) / 100 - x\<bar> = 1 / 200"
  have "\<bar>of_int (round_half_even (x * 100)) - x * 100\<bar>
          = 100 * \<bar>of_int (round_half_even (x * 100)) / 100 - x\<bar>"
    by (simp add: abs_if field_simps)
  with a have "\<bar>of_int (round_half_even (x * 100)) - x * 100\<bar> = 1 / 2" by simp
  then show ?thesis by (rule round_half_even_tie)
qed

lemma exponent_bounds:
  assumes "x \<noteq> 0"
  shows "2 powi exponent x \<le> \<bar>x\<bar>" and "\<bar>x\<bar> < 2 powi (exponent x + 1)"
proof -
  have "2 powi exponent x \<le> \<bar>x\<bar> \<and> \<bar>x\<bar> < 2 powi (exponent x + 1)"
  proof (cases "1 \<le> \<bar>x\<bar>")
    case True
    define n where "n = \<lfloor>\<bar>x\<bar>\<rfloor>"
    have n1: "1 \<le> n" unfolding n_def using True by linarith
    then have npos: "0 < n" by simp
    have b1: "1 \<le> bitlen n" using npos by (simp add: bitlen_alt_def)
    have e: "exponent x = bitlen n - 1" using True by (simp add: exponent_def n_def)
    from bitlen_bounds[OF npos]
    have lo: "2 ^ nat (bitlen n - 1) \<le> n" and hi: "n < 2 ^ nat (bitlen n)" by simp_all
    have "(2::real) powi (bitlen n - 1) = 2 ^ nat (bitlen n - 1)"
      using b1 by (simp add: power_int_nonneg_exp)
    also have "\<dots> = of_int (2 ^ nat (bitlen n - 1))" by simp
    also have "\<dots> \<le> of_int n" using lo by (simp only: of_int_le_iff)
    also have "\<dots> \<le> \<bar>x\<bar>" unfolding n_def by linarith
    finally have A: "2 powi exponent x \<le> \<bar>x\<bar>" by (simp add: e)
    have "n + 1 \<le> 2 ^ nat (bitlen n)" using hi by simp
    then have "real_of_int (n + 1) \<le> of_int (2 ^ nat (bitlen n))" by (simp only: of_int_le_iff)
    moreover have "\<bar>x\<bar> < real_of_int (n + 1)" unfolding n_def by linarith
    ultimately have "\<bar>x\<bar> < of_int (2 ^ nat (bitlen n))" by linarith
    also have "\<dots> = (2::real) ^ nat (bitlen n)" by simp
    also have "\<dots> = 2 powi (bitlen n)" using b1 by (simp add: power_int_nonneg_exp)
    finally have B: "\<bar>x\<bar> < 2 powi (exponent x + 1)" by (simp add: e)
    from A B show ?thesis ..
  next
    case False
    then have lt: "\<bar>x\<bar> < 1" by simp
    have pos: "0 < \<bar>x\<bar>" using assms by simp
    define t where "t = 1 / \<bar>x\<bar>"
    have t1: "1 < t" unfolding t_def using lt pos by simp
    define m where "m = \<lceil>t\<rceil> - 1"
    have m1: "1 \<le> m" unfolding m_def using t1 by linarith
    then have mpos: "0 < m" by simp
    have b1: "1 \<le> bitlen m" using mpos by (simp add: bitlen_alt_def)
    have e: "exponent x = - bitlen m" using False by (simp add: exponent_def m_def t_def)
    from bitlen_bounds[OF mpos]
    have lo: "2 ^ nat (bitlen m - 1) \<le> m" and hi: "m < 2 ^ nat (bitlen m)" by simp_all
    have "t \<le> real_of_int (m + 1)" unfolding m_def by simp
    also have "m + 1 \<le> 2 ^ nat (bitlen m)" using hi by simp
    then have "real_of_int (m + 1) \<le> of_int (2 ^ nat (bitlen m))" by (simp only: of_int_le_iff)
    also have "real_of_int (2 ^ nat (bitlen m)) = 2 powi (bitlen m)"
      using b1 by (simp add: power_int_nonneg_exp)
    finally have tle: "t \<le> 2 powi (bitlen m)" .
    have p: "(0::real) < 2 powi (bitlen m)" by simp
    have "1 / 2 powi (bitlen m) \<le> 1 / t"
      using tle t1 by (intro divide_left_mono) auto
    then have A: "2 powi exponent x \<le> \<bar>x\<bar>"
      using pos by (simp add: e t_def power_int_minus_divide)
    have "real_of_int (2 ^ nat (bitlen m - 1)) \<le> of_int m" using lo by (simp only: of_int_le_iff)
    moreover have "real_of_int m < t" unfolding m_def by linarith
    ultimately have "real_of_int (2 ^ nat (bitlen m - 1)) < t" by linarith
    moreover have "real_of_int (2 ^ nat (bitlen m - 1)) = 2 powi (bitlen m - 1)"
      using b1 by (simp add: power_int_nonneg_exp)
    ultimately have tgt: "2 powi (bitlen m - 1) < t" by simp
    have "1 / t < 1 / 2 powi (bitlen m - 1)"
      using tgt t1 by (intro divide_strict_left_mono) (auto intro: mult_pos_pos)
    moreover have "1 / (2::real) powi (bitlen m - 1) = 2 powi (- bitlen m + 1)"
      by (simp add: power_int_minus_divide[symmetric])
    ultimately have B: "\<bar>x\<bar> < 2 powi (exponent x + 1)"
      using pos by (simp add: e t_def)
    from A B show ?thesis ..
  qed
  then show "2 powi exponent x \<le> \<bar>x\<bar>" and "\<bar>x\<bar> < 2 powi (exponent x + 1)" by simp_all
qed

lemma round_half_even_of_int: "round_half_even (of_int n) = n"
  by (simp add: round_half_even_def)

lemma to_double_zero: "to_double 0 = 0"
  by (simp add: to_double_def)

lemma to_double_one: "to_double 1 = 1"
  by (simp add: to_double_def exponent_def round_half_even_def compute_bitlen)


text \<open>The significand of a positive number, scaled to an integer of 53 bits.\<close>

lemma significand_bounds:
  assumes "0 < x"
  shows "2 ^ 52 \<le> x * 2 powi (52 - exponent x)" and "x * 2 powi (52 - exponent x) < 2 ^ 53"
proof -
  have x: "x \<noteq> 0" "\<bar>x\<bar> = x" using assms by simp_all
  have p: "(0::real) < 2 powi (52 - exponent x)" by simp
  have "(2::real) powi exponent x * 2 powi (52 - exponent x) = 2 powi 52"
    by (simp flip: power_int_add)
  moreover have "2 powi exponent x * 2 powi (52 - exponent x) \<le> x * 2 powi (52 - exponent x)"
    using exponent_bounds(1)[OF x(1)] x(2) p by (simp only: mult_le_cancel_right_pos)
  ultimately show "2 ^ 52 \<le> x * 2 powi (52 - exponent x)" by simp
  have "(2::real) powi (exponent x + 1) * 2 powi (52 - exponent x) = 2 powi 53"
    by (simp flip: power_int_add)
  moreover have "x * 2 powi (52 - exponent x) < 2 powi (exponent x + 1) * 2 powi (52 - exponent x)"
    using exponent_bounds(2)[OF x(1)] x(2) p by (simp only: mult_less_cancel_right_pos)
  ultimately show "x * 2 powi (52 - exponent x) < 2 ^ 53" by simp
qed

lemma rounded_significand_bounds:
  assumes "0 < x"
  shows "2 ^ 52 \<le> round_half_even (x * 2 powi (52 - exponent x))"
    and "round_half_even (x * 2 powi (52 - exponent x)) \<le> 2 ^ 53"
proof -
  have "round_half_even (of_int (2 ^ 52)) \<le> round_half_even (x * 2 powi (52 - exponent x))"
    using significand_bounds(1)[OF assms] by (intro round_half_even_mono) simp
  then show "2 ^ 52 \<le> round_half_even (x * 2 powi (52 - exponent x))"
    by (simp only: round_half_even_of_int)
  have "round_half_even (x * 2 powi (52 - exponent x)) \<le> round_half_even (of_int (2 ^ 53))"
    using significand_bounds(2)[OF assms] by (intro round_half_even_mono) simp
  then show "round_half_even (x * 2 powi (52 - exponent x)) \<le> 2 ^ 53"
    by (simp only: round_half_even_of_int)
qed

lemma to_double_bounds:
  assumes "0 < x"
  shows "2 powi exponent x \<le> to_double x" and "to_double x \<le> 2 powi (exponent x + 1)"
proof -
  have p: "(0::real) < 2 powi (exponent x - 52)" by simp
  have d: "to_double x
             = of_int (round_half_even (x * 2 powi (52 - exponent x))) * 2 powi (exponent x - 52)"
    using assms by (simp add: to_double_def)
  have "real_of_int (2 ^ 52) \<le> of_int (round_half_even (x * 2 powi (52 - exponent x)))"
    using rounded_significand_bounds(1)[OF assms] by (simp only: of_int_le_iff)
  then have "real_of_int (2 ^ 52) * 2 powi (exponent x - 52) \<le> to_double x"
    unfolding d using p by (simp only: mult_le_cancel_right_pos)
  moreover have "real_of_int (2 ^ 52) * 2 powi (exponent x - 52) = 2 powi exponent x"
  proof -
    have "(2::real) powi (52 + (exponent x - 52)) = 2 powi 52 * 2 powi (exponent x - 52)"
      by (rule power_int_add) simp
    then show ?thesis by simp
  qed
  ultimately show "2 powi exponent x \<le> to_double x" by simp
  have "of_int (round_half_even (x * 2 powi (52 - exponent x))) \<le> real_of_int (2 ^ 53)"
    using rounded_significand_bounds(2)[OF assms] by (simp only: of_int_le_iff)
  then have "to_double x \<le> real_of_int (2 ^ 53) * 2 powi (exponent x - 52)"
    unfolding d using p by (simp only: mult_le_cancel_right_pos)
  moreover have "real_of_int (2 ^ 53) * 2 powi (exponent x - 52) = 2 powi (exponent x + 1)"
  proof -
    have "(2::real) powi (53 + (exponent x - 52)) = 2 powi 53 * 2 powi (exponent x - 52)"
      by (rule power_int_add) simp
    moreover have "53 + (exponent x - 52) = exponent x + 1" by simp
    ultimately show ?thesis by simp
  qed
  ultimately show "to_double x \<le> 2 powi (exponent x + 1)" by simp
qed

lemma to_double_pos: "0 < x \<Longrightarrow> 0 < to_double x"
proof -
  assume "0 < x"
  from to_double_bounds(1)[OF this] have "2 powi exponent x \<le> to_double x" .
  moreover have "(0::real) < 2 powi exponent x" by simp
  ultimately show ?thesis by linarith
qed

lemma to_double_nonneg: "0 \<le> x \<Longrightarrow> 0 \<le> to_double x"
  using to_double_pos[of x] by (cases "x = 0") (simp_all add: to_double_zero less_eq_real_def)


subsection \<open>What a call in double arithmetic returns\<close>

lemma weights_of_f64_eq:
  "weights_of_f64 m c data =
     (if 0 \<in> set (dict_values data) then Inl ZeroDivisionError
      else Inr (map (\<lambda>(k, v). (k, np_clip (py_round_f64 (to_double (m / v)) 2) 0 c)) data))"
proof (induction data)
  case Nil
  show ?case by (simp add: dict_values_def)
next
  case (Cons kv rest)
  obtain k v where kv: "kv = (k, v)" by (cases kv)
  show ?case using Cons by (simp add: kv dict_values_def py_div_f64_def)
qed

lemma add_to_all_f64_Nil_iff: "add_to_all_f64 y data = [] \<longleftrightarrow> data = []"
  by (simp add: add_to_all_f64_def)

lemma compute_f64_fst:
  "fst (compute_class_weights_f64 data smoothing clip) =
     (if 0 < smoothing \<and> smoothing \<le> 1 \<and> data \<noteq> []
      then add_to_all_f64 (to_double (to_double (Max (set (dict_values data))) * smoothing)) data
      else data)"
  by (auto simp: compute_class_weights_f64_def weigh_f64_def py_max_def dict_values_Nil_iff
      add_to_all_f64_Nil_iff split: sum.splits)

lemma compute_f64_snd:
  "snd (compute_class_weights_f64 data smoothing clip) =
     (if \<not> (0 \<le> smoothing \<and> smoothing \<le> 1) then Inl SmoothingOutOfRange
      else if data = [] then Inl ValueError
      else weights_of_f64
             (Max (set (dict_values (fst (compute_class_weights_f64 data smoothing clip)))))
             clip (fst (compute_class_weights_f64 data smoothing clip)))"
  by (auto simp: compute_class_weights_f64_def weigh_f64_def py_max_def dict_values_Nil_iff
      add_to_all_f64_Nil_iff split: sum.splits)

lemma compute_f64_keys:
  "map fst (fst (compute_class_weights_f64 data smoothing clip)) = map fst data"
  by (simp add: compute_f64_fst add_to_all_f64_def split_def)

lemma compute_f64_Inr_D:
  assumes "snd (compute_class_weights_f64 data smoothing clip) = Inr ws"
  shows "0 \<le> smoothing" "smoothing \<le> 1" "data \<noteq> []"
    "0 \<notin> set (dict_values (fst (compute_class_weights_f64 data smoothing clip)))"
    "ws = map (\<lambda>(k, v). (k, np_clip (py_round_f64 (to_double
                (Max (set (dict_values (fst (compute_class_weights_f64 data smoothing clip)))) / v)) 2)
                0 clip))
            (fst (compute_class_weights_f64 data smoothing clip))"
  using assms by (auto simp: compute_f64_snd weights_of_f64_eq split: if_splits)


lemma to_double_eq_0_iff: "0 \<le> x \<Longrightarrow> to_double x = 0 \<longleftrightarrow> x = 0"
  using to_double_pos[of x] by (auto simp: to_double_zero less_eq_real_def)

lemma dict_values_add_to_all_f64:
  "dict_values (add_to_all_f64 y data) = map (\<lambda>v. to_double (to_double v + y)) (dict_values data)"
  by (simp add: dict_values_def add_to_all_f64_def split_def)

text \<open>
  On counts that are not negative the two embeddings raise on the same inputs, with the
  same exception: rounding to a double never turns a positive divisor into zero.
\<close>

lemma f64_raises_as_exact:
  assumes nonneg: "\<forall>v\<in>set (dict_values data). 0 \<le> v"
  shows "snd (compute_class_weights_f64 data smoothing clip) = Inl e
           \<longleftrightarrow> snd (compute_class_weights data smoothing clip) = Inl e"
proof (cases "0 \<le> smoothing \<and> smoothing \<le> 1 \<and> data \<noteq> []")
  case False
  then show ?thesis by (auto simp: compute_snd compute_f64_snd)
next
  case True
  then have s: "0 \<le> smoothing" "smoothing \<le> 1" and ne: "data \<noteq> []" by simp_all
  define M where "M = Max (set (dict_values data))"
  have vne: "dict_values data \<noteq> []" using ne by (simp add: dict_values_Nil_iff)
  have M0: "0 \<le> M" unfolding M_def using Max_nonneg[OF vne nonneg] .
  have "0 \<in> set (dict_values (fst (compute_class_weights_f64 data smoothing clip)))
          \<longleftrightarrow> 0 \<in> set (dict_values (fst (compute_class_weights data smoothing clip)))"
  proof (cases "smoothing = 0")
    case True
    then show ?thesis by (simp add: compute_fst compute_f64_fst)
  next
    case False
    with s have spos: "0 < smoothing" by simp
    define y where "y = to_double (to_double M * smoothing)"
    have fM: "0 \<le> to_double M" using M0 by (rule to_double_nonneg)
    then have y0: "0 \<le> y" unfolding y_def using spos by (intro to_double_nonneg) simp
    have yz: "y = 0 \<longleftrightarrow> M = 0"
    proof -
      have "y = 0 \<longleftrightarrow> to_double M * smoothing = 0"
        unfolding y_def using fM spos by (intro to_double_eq_0_iff) simp
      also have "\<dots> \<longleftrightarrow> to_double M = 0" using spos by simp
      also have "\<dots> \<longleftrightarrow> M = 0" using M0 by (rule to_double_eq_0_iff)
      finally show ?thesis .
    qed
    have each: "to_double (to_double v + y) = 0 \<longleftrightarrow> v + M * smoothing = 0"
      if v: "v \<in> set (dict_values data)" for v
    proof -
      have v0: "0 \<le> v" using nonneg v by blast
      then have fv: "0 \<le> to_double v" by (rule to_double_nonneg)
      have "to_double (to_double v + y) = 0 \<longleftrightarrow> to_double v + y = 0"
        using fv y0 by (intro to_double_eq_0_iff) simp
      also have "\<dots> \<longleftrightarrow> to_double v = 0 \<and> y = 0" using fv y0 by linarith
      also have "\<dots> \<longleftrightarrow> v = 0 \<and> M = 0" using to_double_eq_0_iff[OF v0] yz by simp
      also have "\<dots> \<longleftrightarrow> v + M * smoothing = 0"
      proof
        assume "v = 0 \<and> M = 0" then show "v + M * smoothing = 0" by simp
      next
        assume a: "v + M * smoothing = 0"
        have "0 \<le> M * smoothing" using M0 spos by simp
        with a v0 have "v = 0" "M * smoothing = 0" by linarith+
        with spos show "v = 0 \<and> M = 0" by simp
      qed
      finally show ?thesis .
    qed
    have "0 \<in> set (dict_values (add_to_all_f64 y data))
            \<longleftrightarrow> (\<exists>v\<in>set (dict_values data). to_double (to_double v + y) = 0)"
      by (auto simp: dict_values_add_to_all_f64)
    also have "\<dots> \<longleftrightarrow> (\<exists>v\<in>set (dict_values data). v + M * smoothing = 0)"
      using each by blast
    also have "\<dots> \<longleftrightarrow> 0 \<in> set (dict_values (add_to_all (M * smoothing) data))"
      by (auto simp: dict_values_add_to_all)
    finally show ?thesis using spos s ne by (simp add: compute_fst compute_f64_fst y_def M_def)
  qed
  then show ?thesis using True by (auto simp: compute_snd compute_f64_snd weights_of_eq weights_of_f64_eq)
qed

subsection \<open>Rounding and clipping\<close>

text \<open>
  Claim C5, as amended. In a call that returns, the weight of each class is obtained
  from the double \<open>q\<close> that \<^verbatim>\<open>majority / count\<close> returns (both after smoothing) in two
  steps. First \<open>q\<close> is rounded to the nearest multiple \<open>n / 100\<close> of \<open>0.01\<close>; when the
  double \<open>q\<close> itself lies halfway between two multiples, the even \<open>n\<close> is taken. The
  result is the double nearest to \<open>n / 100\<close>. Then it is clipped,
  \<open>min(clip, max(_, 0))\<close>, so that a rounded value equal to \<open>clip\<close> or to \<open>0\<close> stays.
\<close>

theorem weight_rounding:
  assumes ret: "snd (compute_class_weights_f64 data smoothing clip) = Inr ws"
    and i: "i < length data"
  shows "\<exists>n::int.
           \<bar>real_of_int n / 100
              - to_double (Max (set (dict_values (fst (compute_class_weights_f64 data smoothing clip))))
                           / snd (fst (compute_class_weights_f64 data smoothing clip) ! i))\<bar> \<le> 1 / 200
         \<and> (\<bar>real_of_int n / 100
              - to_double (Max (set (dict_values (fst (compute_class_weights_f64 data smoothing clip))))
                           / snd (fst (compute_class_weights_f64 data smoothing clip) ! i))\<bar> = 1 / 200
              \<longrightarrow> even n)
         \<and> ws ! i = (fst (data ! i), min clip (max (to_double (real_of_int n / 100)) 0))"
proof -
  define data' where "data' = fst (compute_class_weights_f64 data smoothing clip)"
  define q where "q = to_double (Max (set (dict_values data')) / snd (data' ! i))"
  define n where "n = round_half_even (q * 100)"
  have len: "length data' = length data"
    using compute_f64_keys[of data smoothing clip] unfolding data'_def by (metis length_map)
  have key: "fst (data' ! i) = fst (data ! i)"
    using compute_f64_keys[of data smoothing clip] i len unfolding data'_def by (metis nth_map)
  have ws: "ws = map (\<lambda>(k, v). (k, np_clip (py_round_f64 (to_double
                (Max (set (dict_values data')) / v)) 2) 0 clip)) data'"
    unfolding data'_def using compute_f64_Inr_D(5)[OF ret] .
  have "ws ! i = (fst (data' ! i), np_clip (py_round_f64 q 2) 0 clip)"
    using i len by (simp add: ws q_def split_def)
  then have w: "ws ! i = (fst (data ! i), min clip (max (to_double (real_of_int n / 100)) 0))"
    by (simp add: key n_def py_round_f64_def np_clip_def)
  have "\<bar>real_of_int n / 100 - q\<bar> \<le> 1 / 200"
    unfolding n_def by (rule py_round_2_near)
  moreover have "\<bar>real_of_int n / 100 - q\<bar> = 1 / 200 \<longrightarrow> even n"
    unfolding n_def using py_round_2_tie by blast
  ultimately show ?thesis using w unfolding q_def data'_def by blast
qed

theorem weight_rounding_witness:
  "\<exists>n::int. \<bar>real_of_int n / 100 - 9 / 8\<bar> = 1 / 200 \<and> even n
      \<and> snd (compute_class_weights_f64 [(''a'', 9), (''b'', 8)] 0 10)
          = Inr [(''a'', 1), (''b'', min 10 (max (to_double (real_of_int n / 100)) 0))]"
proof -
  let ?D = "[(''a'', 9), (''b'', 8)] :: (string \<times> real) list"
  have ret: "snd (compute_class_weights_f64 ?D 0 10)
               = Inr [(''a'', 1), (''b'', 1261007895663739 / 2 ^ 50)]"
    by code_simp
  have i: "1 < length ?D" by simp
  have q: "to_double (Max (set (dict_values (fst (compute_class_weights_f64 ?D 0 10))))
                / snd (fst (compute_class_weights_f64 ?D 0 10) ! 1)) = 9 / 8"
    by code_simp
  from weight_rounding[OF ret i, unfolded q] obtain n :: int where
    a: "\<bar>real_of_int n / 100 - 9 / 8\<bar> \<le> 1 / 200"
    and b: "\<bar>real_of_int n / 100 - 9 / 8\<bar> = 1 / 200 \<longrightarrow> even n"
    and c: "[(''a'', 1), (''b'', 1261007895663739 / 2 ^ 50)] ! 1
              = (fst (?D ! 1), min 10 (max (to_double (real_of_int n / 100)) 0))"
    by blast
  from c have v: "min 10 (max (to_double (real_of_int n / 100)) 0) = 1261007895663739 / 2 ^ 50"
    by simp
  from a have "real_of_int n / 100 - 9 / 8 \<le> 1 / 200" "- (1 / 200) \<le> real_of_int n / 100 - 9 / 8"
    by linarith+
  then have "real_of_int n \<le> 113" "112 \<le> real_of_int n" by linarith+
  then have "n \<le> 113" "112 \<le> n" by simp_all
  then have "n = 112 \<or> n = 113" by linarith
  moreover have "n \<noteq> 113"
  proof
    assume "n = 113"
    moreover have "min 10 (max (to_double (real_of_int 113 / 100)) 0)
                     = (1272266894732165 / 2 ^ 50 :: real)"
      by code_simp
    ultimately show False using v by simp
  qed
  ultimately have n: "n = 112" by simp
  then have t: "\<bar>real_of_int n / 100 - 9 / 8\<bar> = 1 / 200" by simp
  with b have e: "even n" by blast
  have "snd (compute_class_weights_f64 ?D 0 10)
          = Inr [(''a'', 1), (''b'', min 10 (max (to_double (real_of_int n / 100)) 0))]"
    unfolding v using ret .
  with t e show ?thesis by blast
qed

text \<open>
  Claim C5 as stated fails. For the counts \<open>{a: 9, b: 8}\<close> with \<open>smoothing = 0\<close> the
  quotient of \<open>b\<close> is the double \<open>1.125\<close>, halfway between \<open>1.12\<close> and \<open>1.13\<close>: the source
  returns \<open>1.12\<close> where rounding half up gives \<open>1.13\<close>. For \<open>{a: 107, b: 40}\<close> the
  quotient \<open>107 / 40\<close> is the double just below \<open>2.675\<close>: the source returns \<open>2.67\<close> where
  rounding \<open>2.675\<close> half up gives \<open>2.68\<close>.
\<close>

theorem weight_rounding_counterexample:
  "snd (compute_class_weights_f64 [(''a'', 9), (''b'', 8)] 0 10)
     = Inr [(''a'', 1), (''b'', to_double (112 / 100))]
   \<and> spec_weight 9 8 10 = 113 / 100
   \<and> to_double (112 / 100) < 113 / 100 - 1 / 200
   \<and> snd (compute_class_weights_f64 [(''a'', 107), (''b'', 40)] 0 10)
     = Inr [(''a'', 1), (''b'', to_double (267 / 100))]
   \<and> spec_weight 107 40 10 = 268 / 100
   \<and> to_double (267 / 100) < 268 / 100 - 1 / 200"
proof -
  have 1: "snd (compute_class_weights_f64 [(''a'', 9), (''b'', 8)] 0 10)
     = Inr [(''a'', 1), (''b'', to_double (112 / 100))]" by code_simp
  have 2: "spec_weight 9 8 10 = 113 / 100"
    by (simp add: spec_weight_def round_half_up_def np_clip_def)
  have 3: "to_double (112 / 100) < 113 / 100 - 1 / 200" by code_simp
  have 4: "snd (compute_class_weights_f64 [(''a'', 107), (''b'', 40)] 0 10)
     = Inr [(''a'', 1), (''b'', to_double (267 / 100))]" by code_simp
  have 5: "spec_weight 107 40 10 = 268 / 100"
    by (simp add: spec_weight_def round_half_up_def np_clip_def)
  have 6: "to_double (267 / 100) < 268 / 100 - 1 / 200" by code_simp
  from 1 2 3 4 5 6 show ?thesis by blast
qed

subsection \<open>Monotonicity in one count\<close>








section \<open>Properties of \<^verbatim>\<open>find_best_checkpoint\<close>\<close>

subsection \<open>Names that do not parse\<close>

lemma unpack_two: "unpack [a, b] = Inr (a, b)"
  by (simp add: unpack_def)

lemma unpack_three: "unpack [a, b, c] = Inr (a, c)"
  by (simp add: unpack_def)

lemma unpack_other:
  assumes "length components \<noteq> 2" "length components \<noteq> 3"
  shows "unpack components = Inl ValueError"
  using assms by (auto simp: unpack_def split: list.splits)

lemma unpack_hd:
  assumes "length components = 2 \<or> length components = 3"
  shows "\<exists>metric_str. unpack components = Inr (hd components, metric_str)"
proof -
  from assms consider a b where "components = [a, b]" | a b c where "components = [a, b, c]"
    by (auto simp: length_Suc_conv numeral_2_eq_2 numeral_3_eq_3)
  then show ?thesis by cases (auto simp: unpack_two unpack_three)
qed

lemma model_metric_of_malformed:
  assumes "py_split (model_name_of p) divider = Inr components"
    and "length components \<noteq> 2" "length components \<noteq> 3"
  shows "model_metric_of to_float divider p = Inl ValueError"
  using assms by (simp add: model_metric_of_def unpack_other)

lemma model_metric_of_unknown_type:
  assumes "py_split (model_name_of p) divider = Inr components"
    and "length components = 2 \<or> length components = 3"
    and "hd components \<noteq> ''classifier''" "hd components \<noteq> ''segmenter''"
  shows "model_metric_of to_float divider p = Inl (UnknownModelType (hd components))"
proof -
  from unpack_hd[OF assms(2)] obtain metric_str
    where "unpack components = Inr (hd components, metric_str)" by blast
  with assms(1,3,4) show ?thesis by (simp add: model_metric_of_def)
qed

text \<open>The loop stops at the first candidate whose name does not parse.\<close>

lemma scan_models_first_error:
  assumes "\<forall>q\<in>set pre. \<exists>m. model_metric_of to_float divider q = Inr m"
    and "model_metric_of to_float divider p = Inl e"
  shows "scan_models to_float divider (pre @ p # post) st = Inl e"
  using assms
proof (induction pre arbitrary: st)
  case Nil
  then show ?case by (cases st) simp
next
  case (Cons q pre)
  then obtain m where m: "model_metric_of to_float divider q = Inr m" by auto
  obtain b bm where st: "st = (b, bm)" by (cases st)
  from Cons show ?case by (simp add: st m)
qed

lemma scan_models_some_error:
  assumes "p \<in> set models" and "model_metric_of to_float divider p = Inl e"
  shows "\<exists>e'. scan_models to_float divider models st = Inl e'"
  using assms
proof (induction models arbitrary: st)
  case Nil
  then show ?case by simp
next
  case (Cons q models)
  obtain b bm where st: "st = (b, bm)" by (cases st)
  show ?case
  proof (cases "model_metric_of to_float divider q")
    case (Inl e')
    then show ?thesis by (simp add: st)
  next
    case (Inr m)
    with Cons.prems Cons.IH have "p \<in> set models" by auto
    from Cons.IH[OF this Cons.prems(2)] show ?thesis using Inr by (simp add: st)
  qed
qed

lemma find_best_first_error:
  assumes "\<forall>q\<in>set pre. \<exists>m. model_metric_of to_float divider q = Inr m"
    and "model_metric_of to_float divider p = Inl e"
  shows "find_best_checkpoint to_float (pre @ p # post) divider = Inl e"
  using scan_models_first_error[OF assms] by (simp add: find_best_checkpoint_def)

lemma find_best_some_error:
  assumes "p \<in> set models" and "model_metric_of to_float divider p = Inl e"
  shows "\<exists>e'. find_best_checkpoint to_float models divider = Inl e'"
proof -
  from scan_models_some_error[OF assms] obtain e'
    where "scan_models to_float divider models (None, None) = Inl e'" by blast
  then show ?thesis by (auto simp: find_best_checkpoint_def)
qed

text \<open>
  Claim C8. Take a candidate whose name, with \<open>.pth\<close> removed, is split by the divider
  into \<open>components\<close>. If there are not 2 or 3 of them, the tuple assignment of the loop
  body raises \<^verbatim>\<open>ValueError\<close> (the malformed name); if there are 2 or 3 and the first is
  neither \<open>classifier\<close> nor \<open>segmenter\<close>, the assertion on the model type fails. In both
  cases the function fails on every listing that holds the candidate, and with that very
  error when the candidates listed before it are processed without error.
\<close>

theorem malformed_name_fails:
  assumes comps: "py_split (model_name_of p) divider = Inr components"
  shows "(length components \<noteq> 2 \<and> length components \<noteq> 3 \<longrightarrow>
            model_metric_of to_float divider p = Inl ValueError
          \<and> (p \<in> set models \<longrightarrow> (\<exists>e. find_best_checkpoint to_float models divider = Inl e))
          \<and> ((\<forall>q\<in>set pre. \<exists>m. model_metric_of to_float divider q = Inr m) \<longrightarrow>
               find_best_checkpoint to_float (pre @ p # post) divider = Inl ValueError))
       \<and> ((length components = 2 \<or> length components = 3)
            \<and> hd components \<noteq> ''classifier'' \<and> hd components \<noteq> ''segmenter'' \<longrightarrow>
            model_metric_of to_float divider p = Inl (UnknownModelType (hd components))
          \<and> (p \<in> set models \<longrightarrow> (\<exists>e. find_best_checkpoint to_float models divider = Inl e))
          \<and> ((\<forall>q\<in>set pre. \<exists>m. model_metric_of to_float divider q = Inr m) \<longrightarrow>
               find_best_checkpoint to_float (pre @ p # post) divider
                 = Inl (UnknownModelType (hd components))))"
proof (intro conjI impI)
  assume a: "length components \<noteq> 2 \<and> length components \<noteq> 3"
  then show e: "model_metric_of to_float divider p = Inl ValueError"
    using model_metric_of_malformed[OF comps] by blast
  show "\<exists>e. find_best_checkpoint to_float models divider = Inl e" if "p \<in> set models"
    using find_best_some_error[OF that e] .
  show "find_best_checkpoint to_float (pre @ p # post) divider = Inl ValueError"
    if "\<forall>q\<in>set pre. \<exists>m. model_metric_of to_float divider q = Inr m"
    using find_best_first_error[OF that e] .
next
  assume a: "(length components = 2 \<or> length components = 3)
            \<and> hd components \<noteq> ''classifier'' \<and> hd components \<noteq> ''segmenter''"
  then show e: "model_metric_of to_float divider p = Inl (UnknownModelType (hd components))"
    using model_metric_of_unknown_type[OF comps] by blast
  show "\<exists>e. find_best_checkpoint to_float models divider = Inl e" if "p \<in> set models"
    using find_best_some_error[OF that e] .
  show "find_best_checkpoint to_float (pre @ p # post) divider
                 = Inl (UnknownModelType (hd components))"
    if "\<forall>q\<in>set pre. \<exists>m. model_metric_of to_float divider q = Inr m"
    using find_best_first_error[OF that e] .
qed

theorem malformed_name_fails_witness:
  "find_best_checkpoint decimal_literal [''classifier_0.5.pth'', ''a_b_c_d.pth''] ''_''
     = Inl ValueError
   \<and> find_best_checkpoint decimal_literal [''classifier_0.5.pth'', ''unknown_1.0.pth''] ''_''
     = Inl (UnknownModelType ''unknown'')"
proof -
  have pre: "\<forall>q\<in>set [''classifier_0.5.pth'']. \<exists>m. model_metric_of decimal_literal ''_'' q = Inr m"
  proof -
    have "model_metric_of decimal_literal ''_'' ''classifier_0.5.pth'' = Inr (1 / 2)"
      by code_simp
    then have "\<exists>m. model_metric_of decimal_literal ''_'' ''classifier_0.5.pth'' = Inr m"
      by (rule exI)
    then show ?thesis by simp
  qed
  have c1: "py_split (model_name_of ''a_b_c_d.pth'') ''_'' = Inr [''a'', ''b'', ''c'', ''d'']"
    by code_simp
  have c2: "py_split (model_name_of ''unknown_1.0.pth'') ''_'' = Inr [''unknown'', ''1.0'']"
    by code_simp
  from malformed_name_fails[OF c1, of decimal_literal "[]" "[''classifier_0.5.pth'']" "[]"] pre
  have r1: "find_best_checkpoint decimal_literal ([''classifier_0.5.pth''] @ ''a_b_c_d.pth'' # []) ''_''
     = Inl ValueError" by simp
  from malformed_name_fails[OF c2, of decimal_literal "[]" "[''classifier_0.5.pth'']" "[]"] pre
  have r2: "find_best_checkpoint decimal_literal ([''classifier_0.5.pth''] @ ''unknown_1.0.pth'' # []) ''_''
     = Inl (UnknownModelType ''unknown'')" by simp
  from r1 r2 show ?thesis by simp
qed

subsection \<open>Stripping the extension\<close>

lemma split_on_not_Nil: "split_on sep s \<noteq> []"
  by (induction sep s rule: split_on.induct) (auto split: list.splits)

lemma py_replace_concat_split:
  assumes "old \<noteq> []"
  shows "py_replace old [] s = concat (split_on old s)"
  using assms
proof (induction old "[] :: string" s rule: py_replace.induct)
  case (1 old)
  then show ?case by simp
next
  case (2 old c cs)
  show ?case
  proof (cases "prefix old (c # cs)")
    case True
    with 2 show ?thesis by simp
  next
    case False
    obtain p ps where sp: "split_on old cs = p # ps"
      using split_on_not_Nil[of old cs] by (cases "split_on old cs") auto
    from False 2 show ?thesis by (simp add: sp)
  qed
qed

lemma py_replace_no_occurrence:
  assumes "old \<noteq> []" and "\<not> sublist old s"
  shows "py_replace old new s = s"
  using assms
proof (induction s)
  case Nil
  then show ?case by simp
next
  case (Cons c cs)
  have np: "\<not> prefix old (c # cs)"
    using Cons.prems(2) prefix_imp_sublist by blast
  have "\<not> sublist old cs"
    using Cons.prems(2) by (meson sublist_Cons_right)
  with Cons np show ?case by simp
qed

lemma py_replace_first_occurrence:
  assumes "old \<noteq> []" and "hd old \<notin> set a"
  shows "py_replace old new (a @ old @ b) = a @ new @ py_replace old new b"
  using assms
proof (induction a)
  case Nil
  obtain c cs where ob: "old @ b = c # cs" using Nil(1) by (cases old) auto
  have "prefix old (c # cs)" using ob by (metis prefixI)
  moreover have "drop (length old) (c # cs) = b" using ob by (metis append_eq_conv_conj)
  ultimately show ?case using Nil(1) ob by simp
next
  case (Cons x a)
  have "\<not> prefix old (x # a @ old @ b)"
  proof
    assume "prefix old (x # a @ old @ b)"
    then have "hd old = x" using Cons.prems(1) by (cases old) auto
    with Cons.prems(2) show False by simp
  qed
  with Cons show ?case by simp
qed

lemma basename_no_slash: "CHR ''/'' \<notin> set p \<Longrightarrow> basename p = p"
proof -
  assume "CHR ''/'' \<notin> set p"
  then have tw: "takeWhile (\<lambda>c. c \<noteq> CHR ''/'') (rev p) = rev p"
    by (intro takeWhile_eq_all_conv[THEN iffD2]) auto
  show ?thesis by (simp only: basename_def tw rev_rev_ident)
qed

lemma split_on_char_absent: "d \<notin> set s \<Longrightarrow> split_on [d] s = [s]"
  by (induction s) auto

lemma split_on_char_first:
  "d \<notin> set a \<Longrightarrow> split_on [d] (a @ d # b) = a # split_on [d] b"
  by (induction a) auto

lemma model_metric_of_plain:
  assumes mtype: "mtype = ''classifier'' \<or> mtype = ''segmenter''"
    and m: "CHR ''_'' \<notin> set m" "CHR ''-'' \<notin> set m" "CHR ''/'' \<notin> set m"
    and no: "\<not> sublist ''.pth'' (mtype @ ''_'' @ m)"
  shows "model_metric_of to_float ''_'' (mtype @ ''_'' @ m)
           = (case to_float m of None \<Rightarrow> Inl ValueError | Some x \<Rightarrow> Inr x)"
proof -
  define path where "path = mtype @ ''_'' @ m"
  have u: "CHR ''_'' \<notin> set mtype" and sl: "CHR ''/'' \<notin> set mtype" using mtype by auto
  have "CHR ''/'' \<notin> set path" using sl m(3) by (simp add: path_def)
  then have b: "basename path = path" by (rule basename_no_slash)
  have "py_replace ''.pth'' [] path = path"
    using no unfolding path_def by (intro py_replace_no_occurrence) simp_all
  then have n: "model_name_of path = path" by (simp only: model_name_of_def b)
  have sp: "split_on ''_'' path = [mtype, m]"
    using split_on_char_first[OF u, of m] split_on_char_absent[OF m(1)] by (simp add: path_def)
  have sm: "split_on ''-'' m = [m]" using split_on_char_absent[OF m(2)] by simp
  have "model_metric_of to_float ''_'' path
          = (if \<not> (mtype = ''classifier'' \<or> mtype = ''segmenter'') then Inl (UnknownModelType mtype)
             else (case to_float m of None \<Rightarrow> Inl ValueError | Some x \<Rightarrow> Inr x))"
    by (simp add: model_metric_of_def n py_split_def sp unpack_two sm)
  also have "\<dots> = (case to_float m of None \<Rightarrow> Inl ValueError | Some x \<Rightarrow> Inr x)"
    using mtype by (simp only: not_True_eq_False if_False simp_thms)
  finally show ?thesis unfolding path_def .
qed

text \<open>
  Claim C10. The name the loop splits is the base name with every occurrence of \<open>.pth\<close>
  deleted: the pieces between the occurrences, glued together. A base name without
  \<open>.pth\<close> is left as it is, whatever its extension; an occurrence inside the name is
  deleted like one at the end. For a name \<open>classifier_m\<close> or \<open>segmenter_m\<close> without
  \<open>.pth\<close>, the string given to \<^verbatim>\<open>float\<close> is the whole of \<open>m\<close>, its extension included.
\<close>

theorem extension_stripping:
  "model_name_of p = concat (split_on ''.pth'' (basename p))
   \<and> (\<not> sublist ''.pth'' (basename p) \<longrightarrow> model_name_of p = basename p)
   \<and> (CHR ''.'' \<notin> set a \<and> CHR ''/'' \<notin> set (a @ ''.pth'' @ b) \<longrightarrow>
         model_name_of (a @ ''.pth'' @ b) = a @ py_replace ''.pth'' [] b)
   \<and> ((mtype = ''classifier'' \<or> mtype = ''segmenter'')
        \<and> CHR ''_'' \<notin> set m \<and> CHR ''-'' \<notin> set m \<and> CHR ''/'' \<notin> set m
        \<and> \<not> sublist ''.pth'' (mtype @ ''_'' @ m) \<longrightarrow>
         model_metric_of to_float ''_'' (mtype @ ''_'' @ m)
           = (case to_float m of None \<Rightarrow> Inl ValueError | Some x \<Rightarrow> Inr x))"
proof (intro conjI impI)
  show "model_name_of p = concat (split_on ''.pth'' (basename p))"
    unfolding model_name_of_def by (rule py_replace_concat_split) simp
  show "model_name_of p = basename p" if "\<not> sublist ''.pth'' (basename p)"
    unfolding model_name_of_def using that by (intro py_replace_no_occurrence) simp_all
  show "model_name_of (a @ ''.pth'' @ b) = a @ py_replace ''.pth'' [] b"
    if h: "CHR ''.'' \<notin> set a \<and> CHR ''/'' \<notin> set (a @ ''.pth'' @ b)"
  proof -
    from h have "basename (a @ ''.pth'' @ b) = a @ ''.pth'' @ b"
      by (intro basename_no_slash) simp
    moreover have "py_replace ''.pth'' [] (a @ ''.pth'' @ b) = a @ [] @ py_replace ''.pth'' [] b"
      using h by (intro py_replace_first_occurrence) simp_all
    ultimately show ?thesis by (simp only: model_name_of_def append_Nil)
  qed
  show "model_metric_of to_float ''_'' (mtype @ ''_'' @ m)
           = (case to_float m of None \<Rightarrow> Inl ValueError | Some x \<Rightarrow> Inr x)"
    if "(mtype = ''classifier'' \<or> mtype = ''segmenter'')
        \<and> CHR ''_'' \<notin> set m \<and> CHR ''-'' \<notin> set m \<and> CHR ''/'' \<notin> set m
        \<and> \<not> sublist ''.pth'' (mtype @ ''_'' @ m)"
    using that by (intro model_metric_of_plain) blast+
qed

theorem extension_stripping_witness:
  "model_name_of ''classi.pthfier_0.91.pth'' = ''classifier_0.91''
   \<and> model_name_of ''classifier_0.91.pt'' = ''classifier_0.91.pt''
   \<and> model_metric_of decimal_literal ''_'' ''classifier_0.91.pt'' = Inl ValueError
   \<and> decimal_literal ''0.91.pt'' = None"
proof -
  note t = extension_stripping[where p = "''classifier_0.91.pt''" and a = "''classi''"
      and b = "''fier_0.91.pth''" and mtype = "''classifier''" and m = "''0.91.pt''"
      and to_float = decimal_literal]
  have no: "\<not> sublist ''.pth'' ''classifier_0.91.pt''"
    by (simp add: sublist_Cons_right)
  have d: "decimal_literal ''0.91.pt'' = None" by code_simp
  have r: "py_replace ''.pth'' [] ''fier_0.91.pth'' = ''fier_0.91''" by simp
  have bn: "basename ''classifier_0.91.pt'' = ''classifier_0.91.pt''" by (simp add: basename_def)
  from t no bn have 1: "model_name_of ''classifier_0.91.pt'' = ''classifier_0.91.pt''"
    by simp
  from t r have 2: "model_name_of ''classi.pthfier_0.91.pth'' = ''classifier_0.91''"
    by simp
  from t no d have 3: "model_metric_of decimal_literal ''_'' ''classifier_0.91.pt'' = Inl ValueError"
    by simp
  from 1 2 3 d show ?thesis by blast
qed

subsection \<open>Evaluation at given listings\<close>

text \<open>
  Claim C7. On the listing \<open>classifier_0.70-0.70.pth\<close>, \<open>classifier_0.91-0.91.pth\<close>,
  \<open>segmenter_0.50.pth\<close> the function returns the second path; for each candidate the
  string given to \<^verbatim>\<open>float\<close>, whatever \<^verbatim>\<open>float\<close> does with it, is what follows the last
  \<open>-\<close> of the metric component (\<open>0.70\<close>, \<open>0.91\<close>, \<open>0.50\<close>), and these read as
  \<open>0.7\<close>, \<open>0.91\<close> and \<open>0.5\<close>.
\<close>

theorem find_best_example:
  "find_best_checkpoint decimal_literal
     [''classifier_0.70-0.70.pth'', ''classifier_0.91-0.91.pth'', ''segmenter_0.50.pth''] ''_''
     = Inr (Some ''classifier_0.91-0.91.pth'')
   \<and> model_metric_of to_float ''_'' ''classifier_0.70-0.70.pth''
       = (case to_float ''0.70'' of None \<Rightarrow> Inl ValueError | Some x \<Rightarrow> Inr x)
   \<and> model_metric_of to_float ''_'' ''classifier_0.91-0.91.pth''
       = (case to_float ''0.91'' of None \<Rightarrow> Inl ValueError | Some x \<Rightarrow> Inr x)
   \<and> model_metric_of to_float ''_'' ''segmenter_0.50.pth''
       = (case to_float ''0.50'' of None \<Rightarrow> Inl ValueError | Some x \<Rightarrow> Inr x)
   \<and> decimal_literal ''0.70'' = Some (7 / 10)
   \<and> decimal_literal ''0.91'' = Some (91 / 100)
   \<and> decimal_literal ''0.50'' = Some (1 / 2)"
proof -
  have best: "find_best_checkpoint decimal_literal
     [''classifier_0.70-0.70.pth'', ''classifier_0.91-0.91.pth'', ''segmenter_0.50.pth''] ''_''
     = Inr (Some ''classifier_0.91-0.91.pth'')"
    by code_simp
  have m1: "model_metric_of to_float ''_'' ''classifier_0.70-0.70.pth''
       = (case to_float ''0.70'' of None \<Rightarrow> Inl ValueError | Some x \<Rightarrow> Inr x)"
    by (simp add: model_metric_of_def model_name_of_def basename_def py_split_def unpack_def)
  have m2: "model_metric_of to_float ''_'' ''classifier_0.91-0.91.pth''
       = (case to_float ''0.91'' of None \<Rightarrow> Inl ValueError | Some x \<Rightarrow> Inr x)"
    by (simp add: model_metric_of_def model_name_of_def basename_def py_split_def unpack_def)
  have m3: "model_metric_of to_float ''_'' ''segmenter_0.50.pth''
       = (case to_float ''0.50'' of None \<Rightarrow> Inl ValueError | Some x \<Rightarrow> Inr x)"
    by (simp add: model_metric_of_def model_name_of_def basename_def py_split_def unpack_def)
  have lits: "decimal_literal ''0.70'' = Some (7 / 10) \<and> decimal_literal ''0.91'' = Some (91 / 100)
      \<and> decimal_literal ''0.50'' = Some (1 / 2)"
    by code_simp
  from best m1 m2 m3 lits show ?thesis by blast
qed

text \<open>
  Claim C2 at a listing where it fails. Both candidates carry the metric \<open>0.0\<close>, the
  maximum; the test \<^verbatim>\<open>not current_best_metric\<close> is true for the float \<open>0.0\<close> as it is for
  \<^verbatim>\<open>None\<close>, so the second candidate replaces the first and the last path with the
  maximum is returned, not the first.
\<close>

theorem find_best_zero_tie:
  "find_best_checkpoint decimal_literal [''classifier_0.0.pth'', ''segmenter_0.0.pth''] ''_''
     = Inr (Some ''segmenter_0.0.pth'')
   \<and> model_metric_of decimal_literal ''_'' ''classifier_0.0.pth'' = Inr 0
   \<and> model_metric_of decimal_literal ''_'' ''segmenter_0.0.pth'' = Inr 0"
  by code_simp

end
